theory Spec2Isabelle
  imports Complex_Main
begin

section \<open>Energy-based voice-activity segmentation\<close>

text \<open>
  The two notebooks define \<^verbatim>\<open>strip_silence\<close> (twice, with the same body) and
  \<^verbatim>\<open>compute_total_pause_time\<close>, and the preprocessing notebook selects a main speaker
  from a diarization. Both routines start from
  \<^verbatim>\<open>energy = librosa.feature.rms(y=y, frame_length=..., hop_length=...)[0]\<close>.
  The RMS computation belongs to the library, so the embedding takes the frame-energy
  sequence \<open>energy\<close> as an argument next to the signal \<open>y\<close>. Amplitudes, energies and
  times are modelled as exact reals: rounding of floating-point arithmetic is not
  modelled. The sample rate \<open>sr\<close> is assumed positive wherever a time is divided by it.
\<close>

subsection \<open>Library operations used by the source\<close>

datatype py_error = ValueError | ZeroDivisionError

text \<open>
  Modelled from the spec: \<^verbatim>\<open>librosa.frames_to_samples(i, hop_length=hop_length)\<close> is a
  library call; the spec fixes its result: a region boundary at frame index \<open>i\<close> converts
  to the sample index \<open>i * hopLength\<close>.
\<close>

definition frames_to_samples :: "nat \<Rightarrow> nat \<Rightarrow> nat" where
  "frames_to_samples i hop_length = i * hop_length"

text \<open>
  Modelled from the spec: \<^verbatim>\<open>librosa.frames_to_time\<close> is a library call; by the spec
  frame \<open>i\<close> starts at time \<open>i * hop_length / sample_rate\<close>.
\<close>

definition frames_to_time :: "nat \<Rightarrow> real \<Rightarrow> nat \<Rightarrow> real" where
  "frames_to_time i sr hop_length = real (frames_to_samples i hop_length) / sr"

text \<open>
  Modelled from the spec: \<^verbatim>\<open>librosa.get_duration(y=y, sr=sr)\<close> is a library call; by
  the spec the total duration is \<open>len(signal) / sampleRate\<close>.
\<close>

definition get_duration :: "'a list \<Rightarrow> real \<Rightarrow> real" where
  "get_duration y sr = real (length y) / sr"

text \<open>
  The slices \<^verbatim>\<open>y[a:b]\<close> and \<^verbatim>\<open>y[a:]\<close> with non-negative bounds: bounds beyond the
  end are clipped, and \<open>b \<le> a\<close> gives the empty slice.
\<close>

definition slice :: "'a list \<Rightarrow> nat \<Rightarrow> nat \<Rightarrow> 'a list" where
  "slice y a b = take (b - a) (drop a y)"

definition slice_from :: "'a list \<Rightarrow> nat \<Rightarrow> 'a list" where
  "slice_from y a = drop a y"

text \<open>
  \<^verbatim>\<open>np.concatenate\<close> raises \<^verbatim>\<open>ValueError\<close> (need at least one array to concatenate)
  on an empty list of arrays, and joins the arrays in order otherwise.
\<close>

definition concatenate :: "'a list list \<Rightarrow> py_error + 'a list" where
  "concatenate parts = (if parts = [] then Inl ValueError else Inr (concat parts))"

subsection \<open>\<^verbatim>\<open>strip_silence\<close>\<close>

text \<open>
  \<^verbatim>\<open>non_silent_frames = energy > silence_threshold\<close>
\<close>

definition non_silent_frames :: "real list \<Rightarrow> real \<Rightarrow> bool list" where
  "non_silent_frames energy silence_threshold = map (\<lambda>e. e > silence_threshold) energy"

text \<open>
  The loop \<^verbatim>\<open>for i in range(len(non_silent_frames))\<close>. The list argument holds the
  labels from index \<open>i\<close> on; the state is the pair of \<^verbatim>\<open>non_silent_audio\<close> and
  \<^verbatim>\<open>start_idx\<close> (\<open>None\<close> as in the source).
\<close>

fun strip_loop ::
  "'a list \<Rightarrow> nat \<Rightarrow> bool list \<Rightarrow> nat \<Rightarrow> 'a list list \<times> nat option \<Rightarrow> 'a list list \<times> nat option"
where
  "strip_loop y hop_length [] i st = st"
| "strip_loop y hop_length (f # fs) i (non_silent_audio, start_idx) =
     (if f \<and> start_idx = None then
        strip_loop y hop_length fs (Suc i)
          (non_silent_audio, Some (frames_to_samples i hop_length))
      else if \<not> f \<and> start_idx \<noteq> None then
        strip_loop y hop_length fs (Suc i)
          (non_silent_audio @ [slice y (the start_idx) (frames_to_samples i hop_length)], None)
      else strip_loop y hop_length fs (Suc i) (non_silent_audio, start_idx))"

text \<open>
  After the loop: \<^verbatim>\<open>if start_idx is not None: non_silent_audio.append(y[start_idx:])\<close>.
\<close>

fun strip_finish :: "'a list \<Rightarrow> 'a list list \<times> nat option \<Rightarrow> 'a list list" where
  "strip_finish y (non_silent_audio, None) = non_silent_audio"
| "strip_finish y (non_silent_audio, Some start_idx) =
     non_silent_audio @ [slice_from y start_idx]"

text \<open>The list \<^verbatim>\<open>non_silent_audio\<close> as it reaches \<^verbatim>\<open>np.concatenate\<close>.\<close>

definition non_silent_audio :: "'a list \<Rightarrow> real list \<Rightarrow> real \<Rightarrow> nat \<Rightarrow> 'a list list" where
  "non_silent_audio y energy silence_threshold hop_length =
     strip_finish y
       (strip_loop y hop_length (non_silent_frames energy silence_threshold) 0 ([], None))"

definition strip_silence :: "'a list \<Rightarrow> real list \<Rightarrow> real \<Rightarrow> nat \<Rightarrow> py_error + 'a list" where
  "strip_silence y energy silence_threshold hop_length =
     concatenate (non_silent_audio y energy silence_threshold hop_length)"

subsection \<open>\<^verbatim>\<open>compute_total_pause_time\<close>\<close>

text \<open>
  \<^verbatim>\<open>pause_time\<close> starts as the built-in float \<^verbatim>\<open>0.0\<close>. The entries of \<^verbatim>\<open>times\<close> are
  \<^verbatim>\<open>numpy.float64\<close> scalars, so the first \<^verbatim>\<open>pause_time += ...\<close> turns \<^verbatim>\<open>pause_time\<close>
  into a \<^verbatim>\<open>numpy.float64\<close>. The two kinds divide differently by zero, so the model
  keeps the kind next to the value.
\<close>

datatype pynum = PyFloat real | NpFloat64 real

fun num_val :: "pynum \<Rightarrow> real" where
  "num_val (PyFloat r) = r"
| "num_val (NpFloat64 r) = r"

fun is_np :: "pynum \<Rightarrow> bool" where
  "is_np (PyFloat r) = False"
| "is_np (NpFloat64 r) = True"

text \<open>\<^verbatim>\<open>pause_time += d\<close> with \<open>d\<close> a \<^verbatim>\<open>numpy.float64\<close>.\<close>

definition iadd :: "pynum \<Rightarrow> real \<Rightarrow> pynum" where
  "iadd pause_time d = NpFloat64 (num_val pause_time + d)"

text \<open>
  \<^verbatim>\<open>pause_time / total_signal_time\<close>, where \<^verbatim>\<open>total_signal_time\<close> is a built-in float.
  A built-in float divided by zero raises \<^verbatim>\<open>ZeroDivisionError\<close>; a \<^verbatim>\<open>numpy.float64\<close>
  divided by zero only warns and yields \<^verbatim>\<open>nan\<close> or an infinity.
\<close>

datatype float_result = Num real | NaN | PosInf | NegInf

fun true_divide :: "pynum \<Rightarrow> real \<Rightarrow> py_error + float_result" where
  "true_divide (PyFloat a) t =
     (if t = 0 then Inl ZeroDivisionError else Inr (Num (a / t)))"
| "true_divide (NpFloat64 a) t =
     (if t = 0 then Inr (if a = 0 then NaN else if a > 0 then PosInf else NegInf)
      else Inr (Num (a / t)))"

text \<open>
  \<^verbatim>\<open>silence = energy < silence_threshold\<close>
\<close>

definition silence :: "real list \<Rightarrow> real \<Rightarrow> bool list" where
  "silence energy silence_threshold = map (\<lambda>e. e < silence_threshold) energy"

text \<open>
  The loop \<^verbatim>\<open>for i in range(len(silence))\<close>, with \<^verbatim>\<open>times[i]\<close> written as
  \<open>frames_to_time i sr hop_length\<close>; the state is the pair of \<^verbatim>\<open>pause_time\<close> and
  \<^verbatim>\<open>start\<close>.
\<close>

fun pause_loop ::
  "real \<Rightarrow> nat \<Rightarrow> bool list \<Rightarrow> nat \<Rightarrow> pynum \<times> real option \<Rightarrow> pynum \<times> real option"
where
  "pause_loop sr hop_length [] i st = st"
| "pause_loop sr hop_length (s # ss) i (pause_time, start) =
     (if s \<and> start = None then
        pause_loop sr hop_length ss (Suc i) (pause_time, Some (frames_to_time i sr hop_length))
      else if \<not> s \<and> start \<noteq> None then
        pause_loop sr hop_length ss (Suc i)
          (iadd pause_time (frames_to_time i sr hop_length - the start), None)
      else pause_loop sr hop_length ss (Suc i) (pause_time, start))"

text \<open>
  After the loop: \<^verbatim>\<open>if start is not None: pause_time += (times[-1] - start)\<close>. The
  first argument is the time the final pause is measured to.
\<close>

fun pause_finish :: "real \<Rightarrow> pynum \<times> real option \<Rightarrow> pynum" where
  "pause_finish end_time (pause_time, None) = pause_time"
| "pause_finish end_time (pause_time, Some start) = iadd pause_time (end_time - start)"

text \<open>
  \<^verbatim>\<open>pause_time\<close> as it reaches the division. \<^verbatim>\<open>times[-1]\<close> is the start time of the
  last frame; it is only read when a pause is open, and then there is a frame.
\<close>

definition pause_time :: "real \<Rightarrow> real list \<Rightarrow> real \<Rightarrow> nat \<Rightarrow> pynum" where
  "pause_time sr energy silence_threshold hop_length =
     pause_finish (frames_to_time (length energy - 1) sr hop_length)
       (pause_loop sr hop_length (silence energy silence_threshold) 0 (PyFloat 0, None))"

definition compute_total_pause_time ::
  "'a list \<Rightarrow> real \<Rightarrow> real list \<Rightarrow> real \<Rightarrow> nat \<Rightarrow> py_error + float_result" where
  "compute_total_pause_time y sr energy silence_threshold hop_length =
     true_divide (pause_time sr energy silence_threshold hop_length) (get_duration y sr)"

subsection \<open>The diarization loop: main speaker and pause ratio\<close>

text \<open>
  \<^verbatim>\<open>speakers = diarization.labels()\<close> and \<^verbatim>\<open>diarization.label_duration\<close> come from the
  diarization library; the model takes the list of labels and the duration function as
  arguments. The loop keeps \<^verbatim>\<open>(max_duration, main_speaker)\<close>.
\<close>

fun speaker_loop :: "('l \<Rightarrow> real) \<Rightarrow> 'l list \<Rightarrow> real \<times> 'l \<Rightarrow> real \<times> 'l" where
  "speaker_loop label_duration [] st = st"
| "speaker_loop label_duration (speaker # rest) (max_duration, main_speaker) =
     (if label_duration speaker > max_duration then
        speaker_loop label_duration rest (label_duration speaker, speaker)
      else speaker_loop label_duration rest (max_duration, main_speaker))"

text \<open>
  A file with no speaker is skipped (\<^verbatim>\<open>continue\<close>): \<open>None\<close>. With one speaker the loop
  is not run.
\<close>

definition main_speaker :: "'l list \<Rightarrow> ('l \<Rightarrow> real) \<Rightarrow> 'l option" where
  "main_speaker speakers label_duration =
     (if length speakers = 0 then None
      else if length speakers > 1 then
        Some (snd (speaker_loop label_duration speakers (0, speakers ! 0)))
      else Some (speakers ! 0))"

text \<open>
  \<^verbatim>\<open>pause_ratio = pause_duration / speaker_duration\<close>, on the durations of the gaps and
  of the main speaker's timeline, both built-in floats supplied by the library.
\<close>

definition pause_ratio :: "real \<Rightarrow> real \<Rightarrow> py_error + real" where
  "pause_ratio pause_duration speaker_duration =
     (if speaker_duration = 0 then Inl ZeroDivisionError
      else Inr (pause_duration / speaker_duration))"

section \<open>The specification's operations and comparison definitions\<close>

text \<open>
  The definitions of this section do not come from the source. \<open>classifyFrames\<close>,
  \<open>runLengthEncode\<close>, the regions and \<open>stripSilence_spec\<close> follow the words of the
  specification; the others name quantities that the source's functions are compared
  with.
\<close>

text \<open>
  \<open>classifyFrames\<close>: label \<open>i\<close> is true (active) iff \<open>energySequence[i] > threshold\<close>.
\<close>

definition classifyFrames :: "real list \<Rightarrow> real \<Rightarrow> bool list" where
  "classifyFrames energySequence threshold = map (\<lambda>e. e > threshold) energySequence"

text \<open>
  \<open>runLengthEncode\<close>: consecutive frames with the same label are merged into one
  region \<open>(label, start, end)\<close>, a half-open interval of frame indices; the second
  argument is the index of the first frame of the list.
\<close>

fun runLengthEncode :: "bool list \<Rightarrow> nat \<Rightarrow> (bool \<times> nat \<times> nat) list" where
  "runLengthEncode [] i = []"
| "runLengthEncode (l # ls) i =
     (case runLengthEncode ls (Suc i) of
        [] \<Rightarrow> [(l, i, Suc i)]
      | (l', a, b) # rs \<Rightarrow>
          if l' = l then (l, i, b) # rs else (l, i, Suc i) # (l', a, b) # rs)"

text \<open>
  Regions tile the frame indices from \<open>i\<close> to \<open>n\<close>, and consecutive regions alternate
  label.
\<close>

fun tiles :: "nat \<Rightarrow> nat \<Rightarrow> (bool \<times> nat \<times> nat) list \<Rightarrow> bool" where
  "tiles i n [] = (i = n)"
| "tiles i n ((l, a, b) # rs) = (a = i \<and> a < b \<and> tiles b n rs)"

fun alternates :: "(bool \<times> nat \<times> nat) list \<Rightarrow> bool" where
  "alternates [] = True"
| "alternates [r] = True"
| "alternates ((l, a, b) # (l', a', b') # rs) = (l \<noteq> l' \<and> alternates ((l', a', b') # rs))"

text \<open>
  The samples of a region among \<open>n\<close> frames: a boundary at frame \<open>i\<close> is the sample
  \<open>i * hopLength\<close>, and the final region extends to the end of the signal.
\<close>

definition region_samples :: "'a list \<Rightarrow> nat \<Rightarrow> nat \<Rightarrow> bool \<times> nat \<times> nat \<Rightarrow> 'a list" where
  "region_samples y hopLength n r =
     (case r of (l, a, b) \<Rightarrow>
        if b = n then slice_from y (a * hopLength)
        else slice y (a * hopLength) (b * hopLength))"

definition active_regions :: "real list \<Rightarrow> real \<Rightarrow> (bool \<times> nat \<times> nat) list" where
  "active_regions energy threshold =
     filter fst (runLengthEncode (classifyFrames energy threshold) 0)"

text \<open>
  \<open>stripSilence\<close>: the sample spans of the active regions, concatenated in temporal
  order.
\<close>

definition stripSilence_spec :: "'a list \<Rightarrow> real list \<Rightarrow> real \<Rightarrow> nat \<Rightarrow> 'a list" where
  "stripSilence_spec y energy threshold hopLength =
     concat (map (region_samples y hopLength (length energy)) (active_regions energy threshold))"

text \<open>
  The silent regions of \<^verbatim>\<open>compute_total_pause_time\<close> are the regions of its label
  sequence \<open>silence\<close>. Regions tile the duration of the signal: a region among \<open>n\<close>
  frames lasts from the start time of its first frame to the start time of the frame
  after it, and the final region lasts to \<open>end_time\<close>.
\<close>

definition region_duration :: "real \<Rightarrow> nat \<Rightarrow> real \<Rightarrow> nat \<Rightarrow> bool \<times> nat \<times> nat \<Rightarrow> real" where
  "region_duration sr hop_length end_time n r =
     (case r of (l, a, b) \<Rightarrow>
        (if b = n then end_time else frames_to_time b sr hop_length)
          - frames_to_time a sr hop_length)"

definition silent_regions :: "real list \<Rightarrow> real \<Rightarrow> (bool \<times> nat \<times> nat) list" where
  "silent_regions energy silence_threshold =
     filter fst (runLengthEncode (silence energy silence_threshold) 0)"

text \<open>
  The summed durations of the silent regions, in seconds. As the specification has it,
  the regions tile the signal up to its total duration: the final region reaches the end
  of the signal, \<open>len(y) / sr\<close>.
\<close>

definition silent_regions_duration ::
  "'a list \<Rightarrow> real \<Rightarrow> real list \<Rightarrow> real \<Rightarrow> nat \<Rightarrow> real" where
  "silent_regions_duration y sr energy silence_threshold hop_length =
     sum_list (map (region_duration sr hop_length (get_duration y sr) (length energy))
                 (silent_regions energy silence_threshold))"

text \<open>
  The pause ratio with the final pause measured to the end of the signal: the loop of
  \<^verbatim>\<open>compute_total_pause_time\<close>, closed at \<open>len(y) / sr\<close> instead of \<^verbatim>\<open>times[-1]\<close>.
\<close>

definition pause_time_to_end :: "'a list \<Rightarrow> real \<Rightarrow> real list \<Rightarrow> real \<Rightarrow> nat \<Rightarrow> pynum" where
  "pause_time_to_end y sr energy silence_threshold hop_length =
     pause_finish (get_duration y sr)
       (pause_loop sr hop_length (silence energy silence_threshold) 0 (PyFloat 0, None))"

definition pause_ratio_to_end ::
  "'a list \<Rightarrow> real \<Rightarrow> real list \<Rightarrow> real \<Rightarrow> nat \<Rightarrow> py_error + float_result" where
  "pause_ratio_to_end y sr energy silence_threshold hop_length =
     true_divide (pause_time_to_end y sr energy silence_threshold hop_length) (get_duration y sr)"

text \<open>
  The index of the first frame of the trailing run of active frames.
\<close>

definition final_run_start :: "real list \<Rightarrow> real \<Rightarrow> nat" where
  "final_run_start energy silence_threshold =
     length energy - length (takeWhile (\<lambda>e. e > silence_threshold) (rev energy))"

section \<open>Auxiliary definitions for the proofs\<close>

text \<open>
  What \<^verbatim>\<open>strip_silence\<close> still appends from frame \<open>i\<close> on, given \<^verbatim>\<open>start_idx\<close> and the
  regions of the remaining labels.
\<close>

fun pending ::
  "'a list \<Rightarrow> nat \<Rightarrow> nat \<Rightarrow> nat \<Rightarrow> nat option \<Rightarrow> (bool \<times> nat \<times> nat) list \<Rightarrow> 'a list list"
where
  "pending y h n i None rs = map (region_samples y h n) (filter fst rs)"
| "pending y h n i (Some s) [] = [slice_from y s]"
| "pending y h n i (Some s) ((l, a, b) # rs) =
     (if l then (if b = n then slice_from y s else slice y s (b * h))
               # map (region_samples y h n) (filter fst rs)
      else slice y s (i * h) # map (region_samples y h n) (filter fst rs))"

text \<open>
  The pause accumulated at frame \<open>i\<close> if an open pause were closed there.
\<close>

definition pending_val :: "real \<Rightarrow> nat \<Rightarrow> nat \<Rightarrow> pynum \<times> real option \<Rightarrow> real" where
  "pending_val sr h i st =
     (case st of (p, None) \<Rightarrow> num_val p
      | (p, Some a) \<Rightarrow> num_val p + (frames_to_time i sr h - a))"

text \<open>
  What \<^verbatim>\<open>compute_total_pause_time\<close> still adds from frame \<open>i\<close> on, given \<^verbatim>\<open>start\<close> and
  the regions of the remaining labels.
\<close>

fun pending_pause ::
  "real \<Rightarrow> nat \<Rightarrow> real \<Rightarrow> nat \<Rightarrow> nat \<Rightarrow> real option \<Rightarrow> (bool \<times> nat \<times> nat) list \<Rightarrow> real"
where
  "pending_pause sr h t n i None rs = sum_list (map (region_duration sr h t n) (filter fst rs))"
| "pending_pause sr h t n i (Some s) [] = t - s"
| "pending_pause sr h t n i (Some s) ((l, a, b) # rs) =
     (if l then ((if b = n then t else frames_to_time b sr h) - s)
               + sum_list (map (region_duration sr h t n) (filter fst rs))
      else (frames_to_time i sr h - s) + sum_list (map (region_duration sr h t n) (filter fst rs)))"

section \<open>Properties of \<^verbatim>\<open>strip_silence\<close>\<close>

lemma strip_loop_all_silent:
  "\<forall>f \<in> set fs. \<not> f \<Longrightarrow> strip_loop y h fs i (a, None) = (a, None)"
  by (induction fs arbitrary: i) auto

lemma strip_loop_all_active_started:
  "\<forall>f \<in> set fs. f \<Longrightarrow> strip_loop y h fs i (a, Some s) = (a, Some s)"
  by (induction fs arbitrary: i) auto

lemma strip_loop_all_active:
  "fs \<noteq> [] \<Longrightarrow> \<forall>f \<in> set fs. f \<Longrightarrow>
     strip_loop y h fs i (a, None) = (a, Some (frames_to_samples i h))"
  by (cases fs) (auto simp: strip_loop_all_active_started)

text \<open>
  C2. When no frame's energy exceeds the threshold, the loop never opens a region,
  \<^verbatim>\<open>np.concatenate\<close> receives the empty list and \<^verbatim>\<open>strip_silence\<close> raises (the
  \<^verbatim>\<open>ValueError\<close> of the empty concatenation, which the spec names EmptyResultError)
  instead of returning a signal.
\<close>

theorem strip_silence_all_silent_raises:
  assumes "\<forall>e \<in> set energy. \<not> e > silence_threshold"
  shows "non_silent_audio y energy silence_threshold hop_length = []
       \<and> strip_silence y energy silence_threshold hop_length = Inl ValueError"
proof -
  have "\<forall>f \<in> set (non_silent_frames energy silence_threshold). \<not> f"
    using assms by (auto simp: non_silent_frames_def)
  then have "strip_loop y hop_length (non_silent_frames energy silence_threshold) 0 ([], None)
               = ([], None)"
    by (rule strip_loop_all_silent)
  then show ?thesis
    by (simp add: strip_silence_def non_silent_audio_def concatenate_def)
qed

theorem strip_silence_all_silent_raises_witness:
  "strip_silence [0.01, 0, 0.02, 0.01 :: real] [1/100, 0, 2/100] (2/100) 2 = Inl ValueError"
  using strip_silence_all_silent_raises
    [of "[1/100, 0, 2/100]" "2/100" "[0.01, 0, 0.02, 0.01 :: real]" 2]
  by simp

text \<open>
  C3. When there is at least one frame and every frame's energy exceeds the threshold,
  the only region opens at sample 0 and is closed after the loop by \<^verbatim>\<open>y[0:]\<close>, so the
  result is the input signal, sample for sample.
\<close>

theorem strip_silence_all_active_identity:
  assumes "energy \<noteq> []" and "\<forall>e \<in> set energy. e > silence_threshold"
  shows "strip_silence y energy silence_threshold hop_length = Inr y"
proof -
  have "non_silent_frames energy silence_threshold \<noteq> []"
    and "\<forall>f \<in> set (non_silent_frames energy silence_threshold). f"
    using assms by (auto simp: non_silent_frames_def)
  then have "strip_loop y hop_length (non_silent_frames energy silence_threshold) 0 ([], None)
               = ([], Some (frames_to_samples 0 hop_length))"
    by (rule strip_loop_all_active)
  then show ?thesis
    by (simp add: strip_silence_def non_silent_audio_def concatenate_def
        frames_to_samples_def slice_from_def)
qed

theorem strip_silence_all_active_identity_witness:
  "strip_silence [0.5, -0.5, 0.25 :: real] [3/10, 5/10] (2/100) 2 = Inr [0.5, -0.5, 0.25]"
  using strip_silence_all_active_identity
    [of "[3/10, 5/10]" "2/100" "[0.5, -0.5, 0.25 :: real]" 2]
  by simp

lemma strip_loop_append:
  "strip_loop y h (fs1 @ fs2) i st = strip_loop y h fs2 (i + length fs1) (strip_loop y h fs1 i st)"
proof (induction fs1 arbitrary: i st)
  case Nil
  then show ?case by simp
next
  case (Cons f fs1)
  obtain a s where st: "st = (a, s)" by (cases st)
  show ?case unfolding st using Cons.IH by simp
qed

lemma strip_loop_ends_silent:
  "fs \<noteq> [] \<Longrightarrow> \<not> last fs \<Longrightarrow> snd (strip_loop y h fs i (a, s)) = None"
proof (induction fs arbitrary: i a s)
  case Nil
  then show ?case by simp
next
  case (Cons f fs)
  show ?case
  proof (cases "fs = []")
    case True
    then show ?thesis using Cons.prems by auto
  next
    case False
    then show ?thesis using Cons by auto
  qed
qed

lemma strip_loop_final_run:
  assumes "suf \<noteq> []" and "\<forall>e \<in> set suf. e > silence_threshold"
    and "pre = [] \<or> \<not> last pre > silence_threshold"
  shows "non_silent_audio y (pre @ suf) silence_threshold hop_length \<noteq> []
       \<and> last (non_silent_audio y (pre @ suf) silence_threshold hop_length)
           = slice_from y (frames_to_samples (length pre) hop_length)
       \<and> length (last (non_silent_audio y (pre @ suf) silence_threshold hop_length))
           = length y - length pre * hop_length"
proof -
  let ?p = "non_silent_frames pre silence_threshold"
  let ?s = "non_silent_frames suf silence_threshold"
  obtain a st where loop_pre: "strip_loop y hop_length ?p 0 ([], None) = (a, st)"
    by (cases "strip_loop y hop_length ?p 0 ([], None)")
  have "st = None"
  proof (cases "pre = []")
    case True
    then show ?thesis using loop_pre by (simp add: non_silent_frames_def)
  next
    case False
    then have "?p \<noteq> []" and "\<not> last ?p"
      using assms(3) by (auto simp: non_silent_frames_def last_map)
    then have "snd (strip_loop y hop_length ?p 0 ([], None)) = None"
      by (rule strip_loop_ends_silent)
    then show ?thesis using loop_pre by simp
  qed
  moreover have "?s \<noteq> []" and "\<forall>f \<in> set ?s. f"
    using assms(1,2) by (auto simp: non_silent_frames_def)
  then have "strip_loop y hop_length ?s (length pre) (a, None)
               = (a, Some (frames_to_samples (length pre) hop_length))"
    by (rule strip_loop_all_active)
  ultimately have "strip_loop y hop_length (?p @ ?s) 0 ([], None)
                     = (a, Some (frames_to_samples (length pre) hop_length))"
    using loop_pre by (simp add: strip_loop_append non_silent_frames_def)
  then have "non_silent_audio y (pre @ suf) silence_threshold hop_length
               = a @ [slice_from y (frames_to_samples (length pre) hop_length)]"
    by (simp add: non_silent_audio_def non_silent_frames_def)
  then show ?thesis by (simp add: slice_from_def frames_to_samples_def)
qed

text \<open>
  C7. When the last frame is active, the last region that \<^verbatim>\<open>strip_silence\<close> appends is
  \<^verbatim>\<open>y[start_idx:]\<close> with \<^verbatim>\<open>start_idx\<close> the sample index of the first frame of the
  trailing run of active frames: it reaches the end of the signal, whatever the number
  of frames. The signal that \<^verbatim>\<open>strip_silence\<close> returns ends with these samples, so
  the samples after the last frame boundary are kept.
\<close>

theorem strip_silence_last_region_to_end:
  assumes "energy \<noteq> []" and "last energy > silence_threshold"
  shows "non_silent_audio y energy silence_threshold hop_length \<noteq> []
       \<and> last (non_silent_audio y energy silence_threshold hop_length)
           = slice_from y (frames_to_samples (final_run_start energy silence_threshold) hop_length)
       \<and> length (last (non_silent_audio y energy silence_threshold hop_length))
           = length y - final_run_start energy silence_threshold * hop_length
       \<and> strip_silence y energy silence_threshold hop_length
           = Inr (concat (butlast (non_silent_audio y energy silence_threshold hop_length))
                  @ drop (final_run_start energy silence_threshold * hop_length) y)"
proof -
  let ?P = "\<lambda>e. e > silence_threshold"
  let ?suf = "rev (takeWhile ?P (rev energy))"
  let ?pre = "rev (dropWhile ?P (rev energy))"
  let ?parts = "non_silent_audio y energy silence_threshold hop_length"
  have split: "energy = ?pre @ ?suf"
  proof -
    have "rev energy = takeWhile ?P (rev energy) @ dropWhile ?P (rev energy)" by simp
    then have "rev (rev energy) = rev (takeWhile ?P (rev energy) @ dropWhile ?P (rev energy))"
      by (rule arg_cong)
    then show ?thesis by (simp only: rev_rev_ident rev_append)
  qed
  have "?P (hd (rev energy))" using assms by (simp add: hd_rev)
  then have suf: "?suf \<noteq> []" using assms(1) by (cases "rev energy") auto
  have act: "\<forall>e \<in> set ?suf. e > silence_threshold"
    by (auto dest: set_takeWhileD)
  have pre: "?pre = [] \<or> \<not> last ?pre > silence_threshold"
  proof (cases "dropWhile ?P (rev energy) = []")
    case True
    then show ?thesis by simp
  next
    case False
    then have "\<not> ?P (hd (dropWhile ?P (rev energy)))" by (rule hd_dropWhile)
    then show ?thesis using False by (simp add: last_rev)
  qed
  have len: "length ?pre = final_run_start energy silence_threshold"
  proof -
    have "length energy = length ?pre + length ?suf"
      using split by (metis length_append)
    then show ?thesis by (simp add: final_run_start_def)
  qed
  have "non_silent_audio y (?pre @ ?suf) silence_threshold hop_length \<noteq> []
       \<and> last (non_silent_audio y (?pre @ ?suf) silence_threshold hop_length)
           = slice_from y (frames_to_samples (length ?pre) hop_length)
       \<and> length (last (non_silent_audio y (?pre @ ?suf) silence_threshold hop_length))
           = length y - length ?pre * hop_length"
    using suf act pre by (rule strip_loop_final_run)
  then have regions: "?parts \<noteq> []
       \<and> last ?parts
           = slice_from y (frames_to_samples (final_run_start energy silence_threshold) hop_length)
       \<and> length (last ?parts) = length y - final_run_start energy silence_threshold * hop_length"
    unfolding split [symmetric] len .
  have ne: "?parts \<noteq> []" using regions by blast
  have lst: "last ?parts = drop (final_run_start energy silence_threshold * hop_length) y"
    using regions by (simp add: slice_from_def frames_to_samples_def)
  have "butlast ?parts @ [last ?parts] = ?parts"
    using ne by (rule append_butlast_last_id)
  then have "concat ?parts = concat (butlast ?parts @ [last ?parts])"
    by (rule arg_cong [OF sym])
  also have "\<dots> = concat (butlast ?parts) @ last ?parts" by simp
  finally have "concat ?parts = concat (butlast ?parts)
                  @ drop (final_run_start energy silence_threshold * hop_length) y"
    by (simp only: lst)
  then have out: "strip_silence y energy silence_threshold hop_length
           = Inr (concat (butlast ?parts)
                  @ drop (final_run_start energy silence_threshold * hop_length) y)"
    using ne by (simp add: strip_silence_def concatenate_def)
  show ?thesis using regions out by blast
qed

theorem strip_silence_last_region_to_end_witness:
  "strip_silence [1, 2, 3, 4, 5, 6, 7 :: int] [0, 1, 0, 1, 1] (1/2) 2 = Inr [3, 4, 7]
   \<and> last (non_silent_audio [1, 2, 3, 4, 5, 6, 7 :: int] [0, 1, 0, 1, 1] (1/2) 2) = [7]
   \<and> concat (butlast (non_silent_audio [1, 2, 3, 4, 5, 6, 7 :: int] [0, 1, 0, 1, 1] (1/2) 2))
        = [3, 4]
   \<and> final_run_start [0, 1, 0, 1, 1] (1/2) = 3"
proof -
  have run: "final_run_start [0, 1, 0, 1, 1] (1/2) = 3"
    by (simp add: final_run_start_def)
  have parts: "non_silent_audio [1, 2, 3, 4, 5, 6, 7 :: int] [0, 1, 0, 1, 1] (1/2) 2
                 = [[3, 4], [7]]"
    by (simp add: non_silent_audio_def non_silent_frames_def frames_to_samples_def
        slice_def slice_from_def)
  show ?thesis
    using strip_silence_last_region_to_end
      [of "[0, 1, 0, 1, 1]" "1/2" "[1, 2, 3, 4, 5, 6, 7 :: int]" 2]
    by (simp add: run parts)
qed

section \<open>\<^verbatim>\<open>strip_silence\<close> against the specification's regions\<close>

lemma rle_Nil_iff: "runLengthEncode ls i = [] \<longleftrightarrow> ls = []"
  by (cases ls) (auto split: list.splits)

lemma rle_labels_Cons:
  "fst ` set (runLengthEncode (l # ls) i) = insert l (fst ` set (runLengthEncode ls (Suc i)))"
proof (cases "runLengthEncode ls (Suc i)")
  case Nil
  then show ?thesis by simp
next
  case (Cons r rs)
  obtain l' a b where r: "r = (l', a, b)" by (cases r)
  show ?thesis
  proof (cases "l' = l")
    case True
    then show ?thesis using Cons r by simp
  next
    case False
    then show ?thesis using Cons r by simp
  qed
qed

lemma rle_labels: "fst ` set (runLengthEncode ls i) = set ls"
proof (induction ls arbitrary: i)
  case Nil
  then show ?case by simp
next
  case (Cons l ls)
  then show ?case by (simp only: rle_labels_Cons list.set)
qed

lemma rle_tiles: "tiles i (i + length ls) (runLengthEncode ls i)"
proof (induction ls arbitrary: i)
  case Nil
  then show ?case by simp
next
  case (Cons l ls)
  show ?case
  proof (cases "runLengthEncode ls (Suc i)")
    case Nil
    then have "ls = []" by (simp add: rle_Nil_iff)
    then show ?thesis by simp
  next
    case (Cons r rs)
    obtain l' a b where r: "r = (l', a, b)" by (cases r)
    have "tiles (Suc i) (Suc i + length ls) ((l', a, b) # rs)"
      using Cons.IH [of "Suc i"] Cons r by simp
    then show ?thesis using Cons r by auto
  qed
qed

lemma rle_alternates: "alternates (runLengthEncode ls i)"
proof (induction ls arbitrary: i)
  case Nil
  then show ?case by simp
next
  case (Cons l ls)
  show ?case
  proof (cases "runLengthEncode ls (Suc i)")
    case Nil
    then show ?thesis by simp
  next
    case (Cons r rs)
    obtain l' a b where r: "r = (l', a, b)" by (cases r)
    have alt: "alternates ((l', a, b) # rs)"
      using Cons.IH [of "Suc i"] Cons r by simp
    show ?thesis
    proof (cases "l' = l")
      case True
      then show ?thesis using Cons r alt by (cases rs) auto
    next
      case False
      then show ?thesis using Cons r alt by auto
    qed
  qed
qed

lemma rle_decode:
  "concat (map (\<lambda>(l, a, b). replicate (b - a) l) (runLengthEncode ls i)) = ls"
proof (induction ls arbitrary: i)
  case Nil
  then show ?case by simp
next
  case (Cons l ls)
  show ?case
  proof (cases "runLengthEncode ls (Suc i)")
    case Nil
    then have "ls = []" by (simp add: rle_Nil_iff)
    then show ?thesis by simp
  next
    case (Cons r rs)
    obtain l' a b where r: "r = (l', a, b)" by (cases r)
    have t: "a = Suc i" "a < b"
      using rle_tiles [of "Suc i" ls] Cons r by auto
    have "replicate (b - i) l = l # replicate (b - a) l"
      using t by (simp add: Suc_diff_Suc flip: replicate_Suc)
    then show ?thesis using Cons.IH [of "Suc i"] Cons r by auto
  qed
qed

lemma strip_loop_regions:
  "n = i + length fs \<Longrightarrow>
   strip_finish y (strip_loop y h fs i (audio, start)) =
     audio @ pending y h n i start (runLengthEncode fs i)"
proof (induction fs arbitrary: i audio start)
  case Nil
  then show ?case by (cases start) auto
next
  case (Cons f fs)
  have n: "n = Suc i + length fs" using Cons.prems by simp
  note IH = Cons.IH[OF n]
  show ?case
  proof (cases "runLengthEncode fs (Suc i)")
    case Nil
    then have "fs = []" by (simp add: rle_Nil_iff)
    then show ?thesis using Cons.prems
      by (cases start) (auto simp: region_samples_def frames_to_samples_def)
  next
    case (Cons r rs)
    then have "fs \<noteq> []" by auto
    then have ne: "Suc i \<noteq> n" using n by (cases fs) auto
    obtain l a b where r: "r = (l, a, b)" by (cases r)
    show ?thesis using Cons r ne IH
      by (cases start) (auto simp: region_samples_def frames_to_samples_def)
  qed
qed

text \<open>
  C8. With at least one active frame, \<^verbatim>\<open>strip_silence\<close> returns the concatenation, in
  temporal order, of the sample spans of the active regions of the run-length encoding,
  a boundary at frame \<open>i\<close> being the sample \<open>i * hop_length\<close>. Silent regions contribute
  nothing. The source only reads \<open>y\<close> (by slicing), which the pure model reflects.
\<close>

theorem strip_silence_concat_active_regions:
  assumes "\<exists>e \<in> set energy. e > silence_threshold"
  shows "strip_silence y energy silence_threshold hop_length
           = Inr (stripSilence_spec y energy silence_threshold hop_length)"
proof -
  let ?fs = "non_silent_frames energy silence_threshold"
  have regions: "non_silent_audio y energy silence_threshold hop_length
        = map (region_samples y hop_length (length energy)) (active_regions energy silence_threshold)"
    using strip_loop_regions [of "length energy" 0 ?fs y hop_length "[]" None]
    by (simp add: non_silent_audio_def active_regions_def classifyFrames_def non_silent_frames_def)
  have "True \<in> set ?fs" using assms by (auto simp: non_silent_frames_def)
  then have "True \<in> fst ` set (runLengthEncode ?fs 0)" by (simp only: rle_labels)
  then have "active_regions energy silence_threshold \<noteq> []"
    by (auto simp: active_regions_def classifyFrames_def non_silent_frames_def filter_empty_conv)
  then show ?thesis
    by (simp add: strip_silence_def regions concatenate_def stripSilence_spec_def)
qed

theorem strip_silence_concat_active_regions_witness:
  "strip_silence [1, 2, 3, 4, 5, 6, 7 :: int] [1, 0, 0, 1] (1/2) 2 = Inr [1, 2, 7]
   \<and> active_regions [1, 0, 0, 1] (1/2) = [(True, 0, 1), (True, 3, 4)]"
  using strip_silence_concat_active_regions [of "[1, 0, 0, 1]" "1/2" "[1, 2, 3, 4, 5, 6, 7 :: int]" 2]
  by (simp add: stripSilence_spec_def active_regions_def classifyFrames_def region_samples_def
      slice_def slice_from_def)

section \<open>Frame classification\<close>

text \<open>
  C1 (as amended). \<^verbatim>\<open>strip_silence\<close> labels frame \<open>i\<close> non-silent iff
  \<open>energy[i] > threshold\<close>, so there a frame at the threshold is silent.
  \<^verbatim>\<open>compute_total_pause_time\<close> labels frame \<open>i\<close> silent iff \<open>energy[i] < threshold\<close>, so
  there a frame at the threshold is not silent. The two routines agree on every frame
  whose energy differs from the threshold.
\<close>

theorem frame_classification:
  assumes "i < length energy"
  shows "(non_silent_frames energy silence_threshold ! i \<longleftrightarrow> energy ! i > silence_threshold)
       \<and> (silence energy silence_threshold ! i \<longleftrightarrow> energy ! i < silence_threshold)
       \<and> (energy ! i \<noteq> silence_threshold \<longrightarrow>
            (silence energy silence_threshold ! i
               \<longleftrightarrow> \<not> non_silent_frames energy silence_threshold ! i))
       \<and> (energy ! i = silence_threshold \<longrightarrow>
            \<not> non_silent_frames energy silence_threshold ! i
            \<and> \<not> silence energy silence_threshold ! i)"
  using assms by (auto simp: non_silent_frames_def silence_def)

theorem frame_classification_witness:
  "\<not> non_silent_frames [1/100, 2/100, 3/100] (2/100) ! 1
   \<and> \<not> silence [1/100, 2/100, 3/100] (2/100) ! 1
   \<and> non_silent_frames [1/100, 2/100, 3/100] (2/100) ! 2
   \<and> silence [1/100, 2/100, 3/100] (2/100) ! 0"
  using frame_classification [of 1 "[1/100, 2/100, 3/100]" "2/100"]
    frame_classification [of 2 "[1/100, 2/100, 3/100]" "2/100"]
    frame_classification [of 0 "[1/100, 2/100, 3/100]" "2/100"]
  by simp

text \<open>
  In \<^verbatim>\<open>compute_total_pause_time\<close> a frame whose energy equals the threshold is not
  silent, although its energy does not exceed the threshold.
\<close>

theorem pause_classification_at_threshold_counterexample:
  "\<not> ((\<not> silence [2/100] (2/100) ! 0) \<longleftrightarrow> ((2/100 :: real) > 2/100))"
  by (simp add: silence_def)

section \<open>Properties of \<^verbatim>\<open>compute_total_pause_time\<close>\<close>

lemma frames_to_time_Suc:
  "frames_to_time (Suc i) sr h = frames_to_time i sr h + real h / sr"
  by (simp add: frames_to_time_def frames_to_samples_def add_divide_distrib)

lemma pause_loop_val:
  "pending_val sr h (i + length ss) (pause_loop sr h ss i st)
     = pending_val sr h i st + real (length (filter id ss)) * (real h / sr)"
proof (induction ss arbitrary: i st)
  case Nil
  then show ?case by simp
next
  case (Cons s ss)
  obtain p a where st: "st = (p, a)" by (cases st)
  show ?case
    unfolding st using Cons.IH [of "Suc i"]
    by (cases a) (auto simp: pending_val_def frames_to_time_Suc iadd_def algebra_simps add_divide_distrib)
qed

lemma pause_loop_open:
  "snd (pause_loop sr h ss i (p, a)) \<noteq> None \<longleftrightarrow> (if ss = [] then a \<noteq> None else last ss)"
proof (induction ss arbitrary: i p a)
  case Nil
  then show ?case by simp
next
  case (Cons s ss)
  show ?case using Cons.IH by (cases "ss = []") auto
qed

lemma filter_butlast_count:
  "ss \<noteq> [] \<Longrightarrow> length (filter id ss) = length (filter id (butlast ss)) + (if last ss then 1 else 0)"
  by (induction ss) auto

lemma pause_time_value:
  "num_val (pause_time sr energy thr h)
     = real h * real (length (filter (\<lambda>e. e < thr) (butlast energy))) / sr"
proof (cases "energy = []")
  case True
  then show ?thesis by (simp add: pause_time_def silence_def)
next
  case False
  let ?ss = "silence energy thr"
  let ?n = "length energy"
  obtain p a where loop: "pause_loop sr h ?ss 0 (PyFloat 0, None) = (p, a)"
    by (cases "pause_loop sr h ?ss 0 (PyFloat 0, None)")
  have ne: "?ss \<noteq> []" using False by (simp add: silence_def)
  have len: "length ?ss = ?n" by (simp add: silence_def)
  have val: "pending_val sr h ?n (p, a) = real (length (filter id ?ss)) * (real h / sr)"
    using pause_loop_val [of sr h 0 ?ss "(PyFloat 0, None)"] loop len
    by (simp add: pending_val_def)
  have opn: "a \<noteq> None \<longleftrightarrow> last ?ss"
    using pause_loop_open [of sr h ?ss 0 "PyFloat 0" None] loop ne by simp
  have cnt: "length (filter id ?ss) = length (filter id (butlast ?ss)) + (if last ?ss then 1 else 0)"
    using ne by (rule filter_butlast_count)
  have bl: "length (filter id (butlast ?ss)) = length (filter (\<lambda>e. e < thr) (butlast energy))"
    by (simp add: silence_def map_butlast [symmetric] filter_map comp_def)
  have n1: "frames_to_time ?n sr h = frames_to_time (?n - 1) sr h + real h / sr"
    using False frames_to_time_Suc [of "?n - 1" sr h] by (cases energy) auto
  show ?thesis
  proof (cases a)
    case None
    then have "\<not> last ?ss" using opn by simp
    then show ?thesis using None val cnt bl loop
      by (simp add: pause_time_def pending_val_def)
  next
    case (Some s)
    then have "last ?ss" using opn by simp
    then show ?thesis using Some val cnt bl loop n1
      by (simp add: pause_time_def pending_val_def iadd_def algebra_simps add_divide_distrib)
  qed
qed

lemma pause_loop_kind:
  "(is_np (fst (pause_loop sr h ss i (p, a))) \<or> snd (pause_loop sr h ss i (p, a)) \<noteq> None)
     \<longleftrightarrow> (is_np p \<or> a \<noteq> None \<or> True \<in> set ss)"
proof (induction ss arbitrary: i p a)
  case Nil
  then show ?case by simp
next
  case (Cons s ss)
  show ?case using Cons.IH by (auto simp: iadd_def)
qed

lemma pause_finish_kind: "is_np (pause_finish t (p, a)) \<longleftrightarrow> is_np p \<or> a \<noteq> None"
  by (cases a) (auto simp: iadd_def)

lemma pause_time_kind:
  "is_np (pause_time sr energy thr h) \<longleftrightarrow> (\<exists>e \<in> set energy. e < thr)"
proof -
  obtain p a where loop: "pause_loop sr h (silence energy thr) 0 (PyFloat 0, None) = (p, a)"
    by (cases "pause_loop sr h (silence energy thr) 0 (PyFloat 0, None)")
  have "is_np (pause_time sr energy thr h) \<longleftrightarrow> is_np p \<or> a \<noteq> None"
    by (simp add: pause_time_def loop pause_finish_kind)
  also have "\<dots> \<longleftrightarrow> True \<in> set (silence energy thr)"
    using pause_loop_kind [of sr h "silence energy thr" 0 "PyFloat 0" None] loop by simp
  also have "\<dots> \<longleftrightarrow> (\<exists>e \<in> set energy. e < thr)"
    by (auto simp: silence_def)
  finally show ?thesis .
qed

lemma true_divide_nonzero:
  "t \<noteq> 0 \<Longrightarrow> true_divide p t = Inr (Num (num_val p / t))"
  by (cases p) auto

lemma true_divide_zero:
  "true_divide p 0 = (if is_np p then Inr (if num_val p = 0 then NaN
        else if num_val p > 0 then PosInf else NegInf) else Inl ZeroDivisionError)"
  by (cases p) auto

lemma compute_total_pause_time_value:
  assumes "0 < sr" and "y \<noteq> []"
  shows "compute_total_pause_time y sr energy thr h
     = Inr (Num (real h * real (length (filter (\<lambda>e. e < thr) (butlast energy))) / real (length y)))"
proof -
  have "get_duration y sr \<noteq> 0" using assms by (simp add: get_duration_def)
  then have "compute_total_pause_time y sr energy thr h
      = Inr (Num (num_val (pause_time sr energy thr h) / get_duration y sr))"
    by (simp add: compute_total_pause_time_def true_divide_nonzero)
  then show ?thesis using assms by (simp add: pause_time_value get_duration_def)
qed

lemma num_val_iadd: "num_val (iadd p d) = num_val p + d"
  by (simp add: iadd_def)

lemma num_val_pause_finish:
  "num_val (pause_finish t (p, a)) = num_val p + (case a of None \<Rightarrow> 0 | Some s \<Rightarrow> t - s)"
  by (cases a) (simp_all add: num_val_iadd)

lemma pause_loop_regions:
  "n = i + length ss \<Longrightarrow>
   num_val (pause_finish t (pause_loop sr h ss i (p, start)))
     = num_val p + pending_pause sr h t n i start (runLengthEncode ss i)"
proof (induction ss arbitrary: i p start)
  case Nil
  then show ?case by (cases start) (auto simp: num_val_iadd)
next
  case (Cons f fs)
  have n: "n = Suc i + length fs" using Cons.prems by simp
  note IH = Cons.IH[OF n]
  show ?case
  proof (cases "runLengthEncode fs (Suc i)")
    case Nil
    then have "fs = []" by (simp add: rle_Nil_iff)
    then show ?thesis using Cons.prems
      by (cases start) (auto simp: region_duration_def num_val_iadd)
  next
    case (Cons r rs)
    then have "fs \<noteq> []" by auto
    then have ne: "Suc i \<noteq> n" using n by (cases fs) auto
    obtain l a b where r: "r = (l, a, b)" by (cases r)
    show ?thesis using Cons r ne IH
      by (cases start) (auto simp: region_duration_def num_val_iadd)
  qed
qed

lemma pause_time_regions:
  "num_val (pause_time sr energy thr h)
     = sum_list (map (region_duration sr h (frames_to_time (length energy - 1) sr h) (length energy))
         (silent_regions energy thr))"
  using pause_loop_regions [of "length energy" 0 "silence energy thr"
      "frames_to_time (length energy - 1) sr h" sr h "PyFloat 0" None]
  by (simp add: pause_time_def silent_regions_def silence_def)

lemma pause_time_to_end_regions:
  "num_val (pause_time_to_end y sr energy thr h) = silent_regions_duration y sr energy thr h"
  using pause_loop_regions [of "length energy" 0 "silence energy thr"
      "get_duration y sr" sr h "PyFloat 0" None]
  by (simp add: pause_time_to_end_def silent_regions_duration_def silent_regions_def silence_def)

text \<open>
  The ratio with the final pause measured to the end of the signal is the summed duration
  of the silent regions over the total duration.
\<close>

lemma pause_ratio_to_end_region_sum:
  assumes "0 < sr" and "y \<noteq> []"
  shows "pause_ratio_to_end y sr energy thr h
           = Inr (Num (silent_regions_duration y sr energy thr h / get_duration y sr))"
proof -
  have "get_duration y sr \<noteq> 0" using assms by (simp add: get_duration_def)
  then show ?thesis
    by (simp add: pause_ratio_to_end_def true_divide_nonzero pause_time_to_end_regions)
qed

text \<open>
  When the label sequence does not end with a silent frame, no pause is open after the
  loop, and \<^verbatim>\<open>compute_total_pause_time\<close> returns the summed duration of the silent
  regions over the total duration \<open>len(y) / sr\<close>.
\<close>

lemma pause_time_closed:
  assumes "energy = [] \<or> \<not> last energy < thr"
  shows "pause_time sr energy thr h = pause_time_to_end y sr energy thr h"
proof -
  let ?ss = "silence energy thr"
  obtain p a where loop: "pause_loop sr h ?ss 0 (PyFloat 0, None) = (p, a)"
    by (cases "pause_loop sr h ?ss 0 (PyFloat 0, None)")
  have "a = None"
  proof (cases "energy = []")
    case True
    then show ?thesis using loop by (simp add: silence_def)
  next
    case False
    then have "?ss \<noteq> []" and "\<not> last ?ss"
      using assms by (simp_all add: silence_def last_map)
    then show ?thesis
      using pause_loop_open [of sr h ?ss 0 "PyFloat 0" None] loop by simp
  qed
  then show ?thesis by (simp add: pause_time_def pause_time_to_end_def loop)
qed

lemma compute_total_pause_time_region_sum:
  assumes "0 < sr" and "y \<noteq> []" and "energy = [] \<or> \<not> last energy < thr"
  shows "compute_total_pause_time y sr energy thr h
           = Inr (Num (silent_regions_duration y sr energy thr h / get_duration y sr))"
proof -
  have "compute_total_pause_time y sr energy thr h = pause_ratio_to_end y sr energy thr h"
    using pause_time_closed [OF assms(3), of sr h y]
    by (simp add: compute_total_pause_time_def pause_ratio_to_end_def)
  then show ?thesis using assms(1,2) by (simp add: pause_ratio_to_end_region_sum)
qed


text \<open>
  C5 (as amended). For an empty signal the total duration is zero and the division is not
  guarded. It raises \<^verbatim>\<open>ZeroDivisionError\<close> exactly when no frame is silent (the pause
  time is still the built-in \<^verbatim>\<open>0.0\<close>); with a silent frame the pause time is a
  \<^verbatim>\<open>numpy.float64\<close> and the division returns \<^verbatim>\<open>nan\<close> or \<^verbatim>\<open>inf\<close>.
\<close>

theorem compute_total_pause_time_zero_duration:
  assumes "0 < sr"
  shows "compute_total_pause_time [] sr energy silence_threshold hop_length
           = (if list_ex (\<lambda>e. e < silence_threshold) energy then
                Inr (if hop_length = 0
                        \<or> filter (\<lambda>e. e < silence_threshold) (butlast energy) = []
                     then NaN else PosInf)
              else Inl ZeroDivisionError)"
proof -
  let ?c = "length (filter (\<lambda>e. e < silence_threshold) (butlast energy))"
  have v: "num_val (pause_time sr energy silence_threshold hop_length) = real hop_length * real ?c / sr"
    by (rule pause_time_value)
  have z: "num_val (pause_time sr energy silence_threshold hop_length) = 0
             \<longleftrightarrow> hop_length = 0 \<or> filter (\<lambda>e. e < silence_threshold) (butlast energy) = []"
    using assms by (simp add: v)
  have nn: "0 \<le> num_val (pause_time sr energy silence_threshold hop_length)"
    using assms by (simp add: v)
  have k: "is_np (pause_time sr energy silence_threshold hop_length)
             \<longleftrightarrow> list_ex (\<lambda>e. e < silence_threshold) energy"
    by (simp add: pause_time_kind list_ex_iff)
  show ?thesis
    using z nn k
    by (simp add: compute_total_pause_time_def get_duration_def true_divide_zero)
qed

theorem compute_total_pause_time_zero_duration_witness:
  "compute_total_pause_time ([] :: real list) 16000 [1] (2/100) 512 = Inl ZeroDivisionError
   \<and> compute_total_pause_time ([] :: real list) 16000 [0, 0] (2/100) 512 = Inr PosInf"
  using compute_total_pause_time_zero_duration [of 16000 "[1]" "2/100" 512, where ?'a = real]
    compute_total_pause_time_zero_duration [of 16000 "[0, 0]" "2/100" 512, where ?'a = real]
  by simp

text \<open>
  An empty signal with one silent frame: a value is returned, no error is raised.
\<close>

theorem compute_total_pause_time_zero_duration_counterexample:
  "compute_total_pause_time ([] :: real list) 16000 [0] (2/100) 512 = Inr NaN"
  by (simp add: compute_total_pause_time_def pause_time_def silence_def iadd_def
      frames_to_time_def frames_to_samples_def get_duration_def)

lemma compute_total_pause_time_all_active:
  assumes "0 < sr" and "y \<noteq> []" and "\<forall>e \<in> set energy. e > thr"
  shows "compute_total_pause_time y sr energy thr h = Inr (Num 0)"
proof -
  have "filter (\<lambda>e. e < thr) (butlast energy) = []"
    using assms(3) by (auto simp: filter_empty_conv dest!: in_set_butlastD)
  then show ?thesis using assms(1,2) by (simp add: compute_total_pause_time_value)
qed

lemma compute_total_pause_time_all_silent:
  assumes "0 < sr" and "y \<noteq> []" and "\<forall>e \<in> set energy. e < thr"
  shows "compute_total_pause_time y sr energy thr h
           = Inr (Num (real ((length energy - 1) * h) / real (length y)))"
proof -
  have "filter (\<lambda>e. e < thr) (butlast energy) = butlast energy"
    using assms(3) by (auto simp: filter_id_conv dest!: in_set_butlastD)
  then show ?thesis using assms(1,2) by (simp add: compute_total_pause_time_value mult.commute)
qed

text \<open>
  C6. A signal of 1000 zero samples at 16000 Hz has two frames for a hop of 512, both
  silent. \<^verbatim>\<open>compute_total_pause_time\<close> measures the pause from \<^verbatim>\<open>times[0]\<close> to
  \<^verbatim>\<open>times[-1]\<close>, that is 512 of the 1000 samples, and returns 0.512, not 1.0.
\<close>

theorem all_silent_ratio_evaluation:
  "compute_total_pause_time (replicate 1000 (0 :: real)) 16000 [0, 0] (2/100) 512
      = Inr (Num (64/125))"
  by (simp add: compute_total_pause_time_def pause_time_def silence_def iadd_def
      frames_to_time_def frames_to_samples_def get_duration_def)

lemma final_pause_difference:
  assumes "energy \<noteq> []" and "last energy < thr"
  shows "num_val (pause_time_to_end y sr energy thr h) - num_val (pause_time sr energy thr h)
           = get_duration y sr - frames_to_time (length energy - 1) sr h"
proof -
  let ?ss = "silence energy thr"
  obtain p a where loop: "pause_loop sr h ?ss 0 (PyFloat 0, None) = (p, a)"
    by (cases "pause_loop sr h ?ss 0 (PyFloat 0, None)")
  have "?ss \<noteq> []" and "last ?ss"
    using assms by (simp_all add: silence_def last_map)
  then have "a \<noteq> None"
    using pause_loop_open [of sr h ?ss 0 "PyFloat 0" None] loop by simp
  then obtain s where "a = Some s" by auto
  then show ?thesis
    by (simp add: pause_time_to_end_def pause_time_def loop num_val_iadd)
qed

text \<open>
  C10 (as amended). When the last frame is silent, \<^verbatim>\<open>compute_total_pause_time\<close> measures
  the final pause to the start time of the last frame, \<^verbatim>\<open>times[-1]\<close>. Its ratio falls
  short of the ratio with the final pause measured to the end of the signal by the
  fraction of the signal after the start of the last frame: it is strictly smaller
  exactly when the last frame starts before the end of the signal, and equal when the
  last frame starts at the end of the signal.
\<close>

theorem final_pause_measured_to_last_frame:
  assumes "0 < sr" and "y \<noteq> []" and "energy \<noteq> []" and "last energy < silence_threshold"
  shows "\<exists>r r'. compute_total_pause_time y sr energy silence_threshold hop_length = Inr (Num r)
          \<and> pause_ratio_to_end y sr energy silence_threshold hop_length = Inr (Num r')
          \<and> r' - r = (real (length y) - real ((length energy - 1) * hop_length)) / real (length y)
          \<and> (r < r' \<longleftrightarrow> (length energy - 1) * hop_length < length y)
          \<and> (r = r' \<longleftrightarrow> (length energy - 1) * hop_length = length y)"
proof -
  let ?T = "get_duration y sr"
  let ?p = "num_val (pause_time sr energy silence_threshold hop_length)"
  let ?q = "num_val (pause_time_to_end y sr energy silence_threshold hop_length)"
  let ?m = "(length energy - 1) * hop_length"
  have T: "?T \<noteq> 0" using assms(1,2) by (simp add: get_duration_def)
  have c: "compute_total_pause_time y sr energy silence_threshold hop_length = Inr (Num (?p / ?T))"
    using T by (simp add: compute_total_pause_time_def true_divide_nonzero)
  have e: "pause_ratio_to_end y sr energy silence_threshold hop_length = Inr (Num (?q / ?T))"
    using T by (simp add: pause_ratio_to_end_def true_divide_nonzero)
  have "?q - ?p = ?T - frames_to_time (length energy - 1) sr hop_length"
    using assms(3,4) by (rule final_pause_difference)
  then have "(?q - ?p) / ?T = (?T - frames_to_time (length energy - 1) sr hop_length) / ?T"
    by (rule arg_cong)
  then have "?q / ?T - ?p / ?T = (?T - frames_to_time (length energy - 1) sr hop_length) / ?T"
    by (simp only: diff_divide_distrib)
  also have "\<dots> = (real (length y) - real ?m) / real (length y)"
  proof -
    have "sr \<noteq> 0" and "real (length y) \<noteq> 0" using assms(1,2) by simp_all
    then have "(real (length y) / sr - real ?m / sr) / (real (length y) / sr)
                 = (real (length y) - real ?m) / real (length y)"
      by (simp add: field_simps)
    then show ?thesis
      by (simp add: get_duration_def frames_to_time_def frames_to_samples_def)
  qed
  finally have d: "?q / ?T - ?p / ?T = (real (length y) - real ?m) / real (length y)" .
  have len: "0 < real (length y)" using assms(2) by simp
  have lt: "?p / ?T < ?q / ?T \<longleftrightarrow> ?m < length y"
  proof -
    have "?p / ?T < ?q / ?T \<longleftrightarrow> 0 < (real (length y) - real ?m) / real (length y)"
      using d by linarith
    also have "\<dots> \<longleftrightarrow> real ?m < real (length y)"
      using len by (simp add: zero_less_divide_iff)
    also have "\<dots> \<longleftrightarrow> ?m < length y"
      by (rule of_nat_less_iff)
    finally show ?thesis .
  qed
  have eq: "?p / ?T = ?q / ?T \<longleftrightarrow> ?m = length y"
  proof -
    have "?p / ?T = ?q / ?T \<longleftrightarrow> (real (length y) - real ?m) / real (length y) = 0"
      using d by linarith
    also have "\<dots> \<longleftrightarrow> real ?m = real (length y)"
      using len by auto
    also have "\<dots> \<longleftrightarrow> ?m = length y"
      by (rule of_nat_eq_iff)
    finally show ?thesis .
  qed
  show ?thesis using c e d lt eq by blast
qed

theorem final_pause_measured_to_last_frame_witness:
  "compute_total_pause_time (replicate 1000 (0 :: real)) 16000 [0, 0] (2/100) 512
      = Inr (Num (64/125))
   \<and> pause_ratio_to_end (replicate 1000 (0 :: real)) 16000 [0, 0] (2/100) 512 = Inr (Num 1)"
proof -
  have "compute_total_pause_time (replicate 1000 (0 :: real)) 16000 [0, 0] (2/100) 512
          = Inr (Num (64/125))"
    by (simp add: compute_total_pause_time_def pause_time_def silence_def iadd_def
        frames_to_time_def frames_to_samples_def get_duration_def)
  moreover from final_pause_measured_to_last_frame
      [of 16000 "replicate 1000 (0 :: real)" "[0, 0]" "2/100" 512]
  obtain r r' where "compute_total_pause_time (replicate 1000 (0 :: real)) 16000 [0, 0] (2/100) 512
          = Inr (Num r)"
    and "pause_ratio_to_end (replicate 1000 (0 :: real)) 16000 [0, 0] (2/100) 512 = Inr (Num r')"
    and "r' - r = (real (length (replicate 1000 (0 :: real))) - real ((length [0 :: real, 0] - 1) * 512))
                    / real (length (replicate 1000 (0 :: real)))"
    by auto
  ultimately show ?thesis by simp
qed

text \<open>
  A signal of 1024 zero samples with a hop of 512 has three frames, the last starting at
  sample 1024, the end of the signal: both ratios are 1.
\<close>

theorem final_pause_strictly_less_counterexample:
  "compute_total_pause_time (replicate 1024 (0 :: real)) 16000 [0, 0, 0] (2/100) 512
      = Inr (Num 1)
   \<and> pause_ratio_to_end (replicate 1024 (0 :: real)) 16000 [0, 0, 0] (2/100) 512 = Inr (Num 1)"
  by (simp add: compute_total_pause_time_def pause_time_def pause_ratio_to_end_def
      pause_time_to_end_def silence_def iadd_def
      frames_to_time_def frames_to_samples_def get_duration_def)

section \<open>Main speaker selection\<close>

lemma speaker_loop_result:
  "speaker_loop d ss (m, sp) = (m', sp') \<Longrightarrow>
     ((\<forall>s \<in> set ss. d s \<le> m) \<and> m' = m \<and> sp' = sp)
   \<or> (\<exists>k < length ss. sp' = ss ! k \<and> m' = d (ss ! k) \<and> m < d (ss ! k)
         \<and> (\<forall>j < length ss. d (ss ! j) \<le> d (ss ! k))
         \<and> (\<forall>j < k. d (ss ! j) < d (ss ! k)))"
proof (induction ss arbitrary: m sp)
  case Nil
  then show ?case by simp
next
  case (Cons s ss)
  show ?case
  proof (cases "d s > m")
    case True
    then have run: "speaker_loop d ss (d s, s) = (m', sp')" using Cons.prems by simp
    from Cons.IH [OF run] show ?thesis
    proof
      assume a: "(\<forall>x \<in> set ss. d x \<le> d s) \<and> m' = d s \<and> sp' = s"
      have "\<forall>j < length (s # ss). d ((s # ss) ! j) \<le> d s"
      proof (intro allI impI)
        fix j assume "j < length (s # ss)"
        then show "d ((s # ss) ! j) \<le> d s" using a by (cases j) auto
      qed
      then have "0 < length (s # ss) \<and> sp' = (s # ss) ! 0 \<and> m' = d ((s # ss) ! 0)
          \<and> m < d ((s # ss) ! 0)
          \<and> (\<forall>j < length (s # ss). d ((s # ss) ! j) \<le> d ((s # ss) ! 0))
          \<and> (\<forall>j < 0. d ((s # ss) ! j) < d ((s # ss) ! 0))"
        using a True by simp
      then show ?thesis by blast
    next
      assume "\<exists>k < length ss. sp' = ss ! k \<and> m' = d (ss ! k) \<and> d s < d (ss ! k)
         \<and> (\<forall>j < length ss. d (ss ! j) \<le> d (ss ! k))
         \<and> (\<forall>j < k. d (ss ! j) < d (ss ! k))"
      then obtain k where k: "k < length ss" "sp' = ss ! k" "m' = d (ss ! k)" "d s < d (ss ! k)"
         "\<forall>j < length ss. d (ss ! j) \<le> d (ss ! k)" "\<forall>j < k. d (ss ! j) < d (ss ! k)"
        by blast
      have le: "\<forall>j < length (s # ss). d ((s # ss) ! j) \<le> d (ss ! k)"
      proof (intro allI impI)
        fix j assume "j < length (s # ss)"
        then show "d ((s # ss) ! j) \<le> d (ss ! k)" using k by (cases j) auto
      qed
      have lt: "\<forall>j < Suc k. d ((s # ss) ! j) < d (ss ! k)"
      proof (intro allI impI)
        fix j assume "j < Suc k"
        then show "d ((s # ss) ! j) < d (ss ! k)" using k by (cases j) auto
      qed
      have "Suc k < length (s # ss) \<and> sp' = (s # ss) ! Suc k \<and> m' = d ((s # ss) ! Suc k)
          \<and> m < d ((s # ss) ! Suc k)
          \<and> (\<forall>j < length (s # ss). d ((s # ss) ! j) \<le> d ((s # ss) ! Suc k))
          \<and> (\<forall>j < Suc k. d ((s # ss) ! j) < d ((s # ss) ! Suc k))"
        using k le lt True by simp
      then show ?thesis by blast
    qed
  next
    case False
    then have run: "speaker_loop d ss (m, sp) = (m', sp')" using Cons.prems by simp
    from Cons.IH [OF run] show ?thesis
    proof
      assume "(\<forall>x \<in> set ss. d x \<le> m) \<and> m' = m \<and> sp' = sp"
      then show ?thesis using False by auto
    next
      assume "\<exists>k < length ss. sp' = ss ! k \<and> m' = d (ss ! k) \<and> m < d (ss ! k)
         \<and> (\<forall>j < length ss. d (ss ! j) \<le> d (ss ! k))
         \<and> (\<forall>j < k. d (ss ! j) < d (ss ! k))"
      then obtain k where k: "k < length ss" "sp' = ss ! k" "m' = d (ss ! k)" "m < d (ss ! k)"
         "\<forall>j < length ss. d (ss ! j) \<le> d (ss ! k)" "\<forall>j < k. d (ss ! j) < d (ss ! k)"
        by blast
      have le: "\<forall>j < length (s # ss). d ((s # ss) ! j) \<le> d (ss ! k)"
      proof (intro allI impI)
        fix j assume "j < length (s # ss)"
        then show "d ((s # ss) ! j) \<le> d (ss ! k)" using k False by (cases j) auto
      qed
      have lt: "\<forall>j < Suc k. d ((s # ss) ! j) < d (ss ! k)"
      proof (intro allI impI)
        fix j assume "j < Suc k"
        then show "d ((s # ss) ! j) < d (ss ! k)" using k False by (cases j) auto
      qed
      have "Suc k < length (s # ss) \<and> sp' = (s # ss) ! Suc k \<and> m' = d ((s # ss) ! Suc k)
          \<and> m < d ((s # ss) ! Suc k)
          \<and> (\<forall>j < length (s # ss). d ((s # ss) ! j) \<le> d ((s # ss) ! Suc k))
          \<and> (\<forall>j < Suc k. d ((s # ss) ! j) < d ((s # ss) ! Suc k))"
        using k le lt by simp
      then show ?thesis by blast
    qed
  qed
qed

text \<open>
  C9. For a non-empty list of speaker labels with non-negative durations, the selected
  main speaker is a label of maximal duration, and every label before it in the list has
  a strictly smaller duration: among labels of equal maximal duration the first in list
  order is chosen.
\<close>

theorem main_speaker_first_maximal:
  assumes "speakers \<noteq> []" and "\<forall>s \<in> set speakers. 0 \<le> label_duration s"
  shows "\<exists>k < length speakers.
           main_speaker speakers label_duration = Some (speakers ! k)
         \<and> (\<forall>j < length speakers. label_duration (speakers ! j) \<le> label_duration (speakers ! k))
         \<and> (\<forall>j < k. label_duration (speakers ! j) < label_duration (speakers ! k))"
proof (cases "length speakers > 1")
  case False
  then have "length speakers = 1" using assms(1) by (cases speakers) auto
  then have "0 < length speakers \<and> main_speaker speakers label_duration = Some (speakers ! 0)
     \<and> (\<forall>j < length speakers. label_duration (speakers ! j) \<le> label_duration (speakers ! 0))
     \<and> (\<forall>j < 0. label_duration (speakers ! j) < label_duration (speakers ! 0))"
    by (simp add: main_speaker_def)
  then show ?thesis by blast
next
  case True
  obtain m' sp' where run: "speaker_loop label_duration speakers (0, speakers ! 0) = (m', sp')"
    by (cases "speaker_loop label_duration speakers (0, speakers ! 0)")
  have ms: "main_speaker speakers label_duration = Some sp'"
    using True run assms(1) by (simp add: main_speaker_def)
  from speaker_loop_result [OF run] show ?thesis
  proof
    assume a: "(\<forall>s \<in> set speakers. label_duration s \<le> 0) \<and> m' = 0 \<and> sp' = speakers ! 0"
    then have zero: "\<forall>s \<in> set speakers. label_duration s = 0"
      using assms(2) by (auto intro: antisym)
    have "0 < length speakers \<and> main_speaker speakers label_duration = Some (speakers ! 0)
     \<and> (\<forall>j < length speakers. label_duration (speakers ! j) \<le> label_duration (speakers ! 0))
     \<and> (\<forall>j < 0. label_duration (speakers ! j) < label_duration (speakers ! 0))"
      using a ms zero assms(1) by simp
    then show ?thesis by blast
  next
    assume "\<exists>k < length speakers. sp' = speakers ! k \<and> m' = label_duration (speakers ! k)
         \<and> 0 < label_duration (speakers ! k)
         \<and> (\<forall>j < length speakers. label_duration (speakers ! j) \<le> label_duration (speakers ! k))
         \<and> (\<forall>j < k. label_duration (speakers ! j) < label_duration (speakers ! k))"
    then show ?thesis using ms by blast
  qed
qed

theorem main_speaker_first_maximal_witness:
  "main_speaker [''A'', ''B''] (\<lambda>_. 5) = Some ''A''"
proof -
  have h1: "[''A'', ''B''] \<noteq> []" by simp
  have h2: "\<forall>s \<in> set [''A'', ''B'']. 0 \<le> (\<lambda>_. 5 :: real) s" by simp
  from main_speaker_first_maximal [OF h1 h2]
  obtain k where k: "main_speaker [''A'', ''B''] (\<lambda>_. 5 :: real) = Some ([''A'', ''B''] ! k)"
    and first: "\<forall>j < k. (5 :: real) < 5"
    by blast
  have "k = 0" using first by (cases k) auto
  then show ?thesis using k by simp
qed

end
